theory Spec2Isabelle
  imports Main "HOL-Library.Sublist"
begin

section \<open>easy2acl.py: converting EasyChair exports into the ACL Anthology layout\<close>

text \<open>
  The script is one top-level sequence of statements.  It is embedded here stage by
  stage, each stage a function of the values the earlier stages produced.  Python strings
  are \<^typ>\<open>string\<close>, so a character is a code point in the range 0..255; on that range
  the regular expression class \<^verbatim>\<open>\d\<close> is exactly the ten ASCII digits.

  What the script reads from the outside world is a parameter of the model (record
  \<open>env\<close> below): the lines of the three input files, the rows of the optional CSV file,
  the initial file system as an existence predicate, the result of \<^verbatim>\<open>glob\<close>, and the two
  library functions \<^verbatim>\<open>unicode_to_tex\<close> and pybtex's \<^verbatim>\<open>to_string('bibtex')\<close>.
  Opening, copying and writing files are assumed to succeed, the CSV file to have the
  two columns the script reads, and memory to suffice.
\<close>

subsection \<open>Python string primitives\<close>

text \<open>\<^verbatim>\<open>str.isspace\<close> on code points below 256.\<close>

definition is_space :: "char \<Rightarrow> bool" where
  "is_space c = (c \<in> set [CHR 0x09, CHR 0x0A, CHR 0x0B, CHR 0x0C, CHR 0x0D,
                            CHR 0x1C, CHR 0x1D, CHR 0x1E, CHR 0x1F, CHR 0x20,
                            CHR 0x85, CHR 0xA0])"

definition is_digit :: "char \<Rightarrow> bool" where
  "is_digit c = (c \<in> set ''0123456789'')"

definition is_upper_AZ :: "char \<Rightarrow> bool" where
  "is_upper_AZ c = (c \<in> set ''ABCDEFGHIJKLMNOPQRSTUVWXYZ'')"

definition is_ascii :: "char \<Rightarrow> bool" where
  "is_ascii c = (of_char c < (128::nat))"

text \<open>\<^verbatim>\<open>s.rstrip()\<close>: drop trailing whitespace.\<close>

definition rstrip :: "string \<Rightarrow> string" where
  "rstrip s = rev (dropWhile is_space (rev s))"

text \<open>
  \<^verbatim>\<open>s.split()\<close>: maximal runs of non-whitespace, scanning left to right; \<open>tok\<close> is the
  token being collected.
\<close>

fun split_ws_go :: "string \<Rightarrow> string \<Rightarrow> string list" where
  "split_ws_go tok [] = (if tok = [] then [] else [tok])"
| "split_ws_go tok (c # cs) =
     (if is_space c
      then (if tok = [] then split_ws_go [] cs else tok # split_ws_go [] cs)
      else split_ws_go (tok @ [c]) cs)"

definition split_ws :: "string \<Rightarrow> string list" where
  "split_ws s = split_ws_go [] s"

text \<open>
  \<^verbatim>\<open>s.split(maxsplit=1)\<close>: skip leading whitespace, take the first token, skip the
  whitespace after it, and keep the remainder whole when it is not empty.
\<close>

definition split_ws_max1 :: "string \<Rightarrow> string list" where
  "split_ws_max1 s =
     (let r = dropWhile is_space s in
      if r = [] then []
      else let k = takeWhile (\<lambda>c. \<not> is_space c) r;
               v = dropWhile is_space (dropWhile (\<lambda>c. \<not> is_space c) r)
           in if v = [] then [k] else [k, v])"

text \<open>
  \<^verbatim>\<open>s.split(sep)\<close> for a non-empty separator: the result always has at least one
  element.  (Python raises ValueError for an empty separator; the script never passes
  one, and the model returns the string unsplit there.)
\<close>

fun split_str :: "string \<Rightarrow> string \<Rightarrow> string list" where
  "split_str sep [] = [[]]"
| "split_str sep (c # cs) =
     (if sep \<noteq> [] \<and> prefix sep (c # cs)
      then [] # split_str sep (drop (length sep - 1) cs)
      else (case split_str sep cs of
              [] \<Rightarrow> [[c]]
            | w # ws \<Rightarrow> (c # w) # ws))"

text \<open>
  \<^verbatim>\<open>s.replace(old, new)\<close> for a non-empty \<open>old\<close>: non-overlapping occurrences, leftmost
  first.  (For an empty \<open>old\<close> Python inserts \<open>new\<close> around every character; the script
  never does that, and the model leaves the string alone there.)
\<close>

fun replace_str :: "string \<Rightarrow> string \<Rightarrow> string \<Rightarrow> string" where
  "replace_str old new [] = []"
| "replace_str old new (c # cs) =
     (if old \<noteq> [] \<and> prefix old (c # cs)
      then new @ replace_str old new (drop (length old - 1) cs)
      else c # replace_str old new cs)"

text \<open>\<^verbatim>\<open>sep.join(xs)\<close>.\<close>

fun join_str :: "string \<Rightarrow> string list \<Rightarrow> string" where
  "join_str sep [] = []"
| "join_str sep [x] = x"
| "join_str sep (x # y # ys) = x @ sep @ join_str sep (y # ys)"

text \<open>\<^verbatim>\<open>str(n)\<close> for a non-negative integer.\<close>

definition digit_char :: "nat \<Rightarrow> char" where
  "digit_char d = ''0123456789'' ! d"

fun str_nat :: "nat \<Rightarrow> string" where
  "str_nat n = (if n < 10 then [digit_char n] else str_nat (n div 10) @ [digit_char (n mod 10)])"

declare str_nat.simps [simp del]

text \<open>
  The decimal value of a string of digits, as the format-spec parser reads it; a Python
  integer, so an \<^typ>\<open>int\<close>.
\<close>

definition digit_val :: "char \<Rightarrow> int" where
  "digit_val c = of_char c - 48"

definition int_of_digits :: "string \<Rightarrow> int" where
  "int_of_digits ds = foldl (\<lambda>acc c. 10 * acc + digit_val c) 0 ds"

text \<open>A string padded on the left with zeros to at least \<open>k\<close> characters.\<close>

definition zero_pad :: "nat \<Rightarrow> string \<Rightarrow> string" where
  "zero_pad k s = replicate (k - length s) (CHR ''0'') @ s"

text \<open>
  The largest field width a format spec may name: \<^verbatim>\<open>PY_SSIZE_T_MAX\<close>, here
  \<open>2\<^sup>6\<^sup>3 - 1\<close> for a 64-bit build of CPython.
\<close>

definition ssize_max :: int where
  "ssize_max = 9223372036854775807"

text \<open>
  \<^verbatim>\<open>'{paper_id:0{width}d}'.format(paper_id=n, width=w)\<close> for \<open>n \<ge> 0\<close> and a digit string
  \<open>w\<close>: the format spec is \<open>0\<close>, then \<open>w\<close>, then \<open>d\<close>.  The parser of the spec raises
  ValueError (too many decimal digits) when the width is above \<open>ssize_max\<close>; otherwise
  the result is the decimal digits of \<open>n\<close> padded on the left with zeros to at least
  \<open>int(w)\<close> characters.
\<close>

text \<open>
  \<^verbatim>\<open>print(a, b, ...)\<close> writes its arguments separated by single spaces, then a newline.
\<close>

definition print_line :: "string list \<Rightarrow> string" where
  "print_line args = join_str '' '' args @ [CHR 0x0A]"

text \<open>\<^verbatim>\<open>os.path.basename\<close> and \<^verbatim>\<open>os.path.dirname\<close> (posixpath).\<close>

definition basename :: "string \<Rightarrow> string" where
  "basename p = rev (takeWhile (\<lambda>c. c \<noteq> CHR ''/'') (rev p))"

definition dirname :: "string \<Rightarrow> string" where
  "dirname p =
     (let head = rev (dropWhile (\<lambda>c. c \<noteq> CHR ''/'') (rev p)) in
      if head \<noteq> [] \<and> \<not> list_all (\<lambda>c. c = CHR ''/'') head
      then rev (dropWhile (\<lambda>c. c = CHR ''/'') (rev head))
      else head)"

subsection \<open>texify (lines 23-28)\<close>

text \<open>
  \<^verbatim>\<open>' '.join(map(unicode_to_tex, string.split()))\<close>.  The function
  \<^verbatim>\<open>unicode_to_tex\<close> belongs to the external package \<^verbatim>\<open>unicode_tex\<close>; it is the parameter
  \<open>u2t\<close>.
\<close>

definition texify :: "(string \<Rightarrow> string) \<Rightarrow> string \<Rightarrow> string" where
  "texify u2t s = join_str '' '' (map u2t (split_ws s))"

subsection \<open>The outside world, and what a run leaves behind\<close>

text \<open>
  A run ends by falling off the end of the script, by \<^verbatim>\<open>sys.exit(n)\<close>, or by an
  exception that nothing catches.  What it did until then is a list of events, in order.
\<close>

datatype exn = ValueError | IndexError | TypeError | PybtexError

datatype stream = Stdout | Stderr

datatype event =
    Print stream string
  | Makedirs string
  | Copy string string
  | WriteFile string string

datatype outcome = Finished | Exit nat | Uncaught exn

definition format_id :: "string \<Rightarrow> nat \<Rightarrow> exn + string" where
  "format_id w n =
     (if ssize_max < int_of_digits w then Inl ValueError
      else Inr (zero_pad (nat (int_of_digits w)) (str_nat n)))"

text \<open>A pybtex \<^verbatim>\<open>Entry\<close>: its type and its fields in insertion order.\<close>

record bib_entry =
  entry_type :: string
  entry_fields :: "(string \<times> string) list"

record env =
  meta_lines :: "string list"
  accepted_lines :: "string list"
  submissions_lines :: "string list"
  csv_rows :: "(string \<times> string) list"
  path_exists :: "string \<Rightarrow> bool"
  glob :: "string \<Rightarrow> string list"
  unicode_to_tex :: "string \<Rightarrow> string"
  to_bibtex :: "string \<Rightarrow> bib_entry \<Rightarrow> exn + string"

text \<open>
  \<open>csv_rows\<close> are the pairs \<^verbatim>\<open>(row['#'], row['abstract'])\<close> that \<^verbatim>\<open>DictReader\<close> yields
  for \<^verbatim>\<open>submission.csv\<close>, read only when that file exists.  \<open>to_bibtex key entry\<close> is
  \<^verbatim>\<open>BibliographyData({key: entry}).to_string('bibtex')\<close>: the string, or the exception
  the call raises (a TypeError, or an error of pybtex's own).
\<close>

type_synonym 'a stage = "event list \<times> (outcome + 'a)"

definition and_then :: "'a stage \<Rightarrow> ('a \<Rightarrow> 'b stage) \<Rightarrow> 'b stage" where
  "and_then m f =
     (case m of
        (es, Inl out) \<Rightarrow> (es, Inl out)
      | (es, Inr x) \<Rightarrow> (case f x of (es', r) \<Rightarrow> (es @ es', r)))"

definition quoted :: "char \<Rightarrow> string \<Rightarrow> string" where
  "quoted q s = [q] @ s @ [q]"

subsection \<open>Metadata (lines 34-52)\<close>

text \<open>
  The dictionary \<^verbatim>\<open>metadata\<close> holds a list under the key \<^verbatim>\<open>chairs\<close> and a string under
  every other key.
\<close>

record metadata =
  chairs :: "string list"
  others :: "string \<rightharpoonup> string"

definition metadata0 :: metadata where
  "metadata0 = \<lparr>chairs = [], others = Map.empty\<rparr>"

text \<open>
  \<^verbatim>\<open>key, value = line.rstrip().split(maxsplit=1)\<close> raises ValueError unless the split
  gives exactly two strings.
\<close>

fun load_metadata :: "metadata \<Rightarrow> string list \<Rightarrow> exn + metadata" where
  "load_metadata md [] = Inr md"
| "load_metadata md (line # rest) =
     (case split_ws_max1 (rstrip line) of
        [key, v] \<Rightarrow>
          load_metadata
            (if key = ''chairs'' then md\<lparr>chairs := chairs md @ [v]\<rparr>
             else md\<lparr>others := (others md)(key \<mapsto> v)\<rparr>)
            rest
      | _ \<Rightarrow> Inl ValueError)"

definition required_keys :: "string list" where
  "required_keys =
     split_ws ''abbrev title booktitle month year location publisher chairs bib_url''"

definition has_key :: "metadata \<Rightarrow> string \<Rightarrow> bool" where
  "has_key md k = (k = ''chairs'' \<or> others md k \<noteq> None)"

fun missing_key :: "metadata \<Rightarrow> string list \<Rightarrow> string option" where
  "missing_key md [] = None"
| "missing_key md (k # ks) = (if \<not> has_key md k then Some k else missing_key md ks)"

text \<open>
  \<^verbatim>\<open>metadata[k]\<close> for a string-valued key.  The script reads only required keys, after
  the check of lines 43-46 (lemma \<open>item_required\<close>); the value for an absent key is never
  used.
\<close>

definition item :: "metadata \<Rightarrow> string \<Rightarrow> string" where
  "item md k = (case others md k of Some v \<Rightarrow> v | None \<Rightarrow> [])"

definition stage_metadata :: "env \<Rightarrow> metadata stage" where
  "stage_metadata e =
     (case load_metadata metadata0 (meta_lines e) of
        Inl x \<Rightarrow> ([], Inl (Uncaught x))
      | Inr md \<Rightarrow>
          (case missing_key md required_keys of
             Some k \<Rightarrow>
               ([Print Stdout (print_line
                   [''Fatal: missing key '' @ quoted (CHR 0x22) k @ '' from '' @
                    quoted (CHR 0x22) ''meta'' @ '' file''])],
                Inl (Exit 1))
           | None \<Rightarrow> ([], Inr md)))"

text \<open>
  The pattern of line 48,
  \<^verbatim>\<open>https://www.aclweb.org/anthology/([A-Z])(\d\d)-(\d+)%0(\d+)d\<close>, matched at the start
  of the string by \<^verbatim>\<open>re.match\<close>.  Each piece consumes a prefix of what is left.  An
  unescaped dot is any character but a newline.  A greedy \<^verbatim>\<open>\d+\<close> is followed by a
  character that is not a digit, so the longest run of digits is the only one that can
  match.
\<close>

definition lit :: "string \<Rightarrow> string \<Rightarrow> string option" where
  "lit p s = (if prefix p s then Some (drop (length p) s) else None)"

definition one :: "(char \<Rightarrow> bool) \<Rightarrow> string \<Rightarrow> (char \<times> string) option" where
  "one P s = (case s of [] \<Rightarrow> None | c # r \<Rightarrow> if P c then Some (c, r) else None)"

definition many1 :: "(char \<Rightarrow> bool) \<Rightarrow> string \<Rightarrow> (string \<times> string) option" where
  "many1 P s = (if takeWhile P s = [] then None else Some (takeWhile P s, dropWhile P s))"

definition dot :: "char \<Rightarrow> bool" where
  "dot c = (c \<noteq> CHR 0x0A)"

definition match_bib_url :: "string \<Rightarrow> (string \<times> string \<times> string \<times> string) option" where
  "match_bib_url s =
     Option.bind (lit ''https://www'' s) (\<lambda>s.
     Option.bind (one dot s) (\<lambda>(_, s).
     Option.bind (lit ''aclweb'' s) (\<lambda>s.
     Option.bind (one dot s) (\<lambda>(_, s).
     Option.bind (lit ''org/anthology/'' s) (\<lambda>s.
     Option.bind (one is_upper_AZ s) (\<lambda>(l, s).
     Option.bind (one is_digit s) (\<lambda>(y1, s).
     Option.bind (one is_digit s) (\<lambda>(y2, s).
     Option.bind (lit ''-'' s) (\<lambda>s.
     Option.bind (many1 is_digit s) (\<lambda>(vol, s).
     Option.bind (lit ''%0'' s) (\<lambda>s.
     Option.bind (many1 is_digit s) (\<lambda>(w, s).
     Option.bind (lit ''d'' s) (\<lambda>_.
     Some ([l], [y1, y2], vol, w))))))))))))))"

text \<open>
  The strings that the pattern of line 48 matches, and the groups it then yields, written
  as a decomposition of the string: the literal prefix with any two characters but
  newlines for its dots, one letter A-Z, two digits, a hyphen, one or more digits,
  \<^verbatim>\<open>%0\<close>, one or more digits, \<^verbatim>\<open>d\<close>, and anything after that.
\<close>

definition bib_url_shape :: "string \<Rightarrow> string \<Rightarrow> string \<Rightarrow> string \<Rightarrow> string \<Rightarrow> bool" where
  "bib_url_shape s l y vol w =
     (\<exists>c1 c2 rest.
        s = ''https://www'' @ [c1] @ ''aclweb'' @ [c2] @ ''org/anthology/'' @
            l @ y @ ''-'' @ vol @ ''%0'' @ w @ ''d'' @ rest
        \<and> c1 \<noteq> CHR 0x0A \<and> c2 \<noteq> CHR 0x0A
        \<and> length l = 1 \<and> list_all is_upper_AZ l
        \<and> length y = 2 \<and> list_all is_digit y
        \<and> vol \<noteq> [] \<and> list_all is_digit vol
        \<and> w \<noteq> [] \<and> list_all is_digit w)"

text \<open>
  The four groups: \<^verbatim>\<open>anthology_collection\<close>, \<^verbatim>\<open>anthology_year\<close>, \<^verbatim>\<open>anthology_volume\<close>,
  \<^verbatim>\<open>anthology_paper_width\<close>.
\<close>

definition stage_bib_url :: "metadata \<Rightarrow> (string \<times> string \<times> string \<times> string) stage" where
  "stage_bib_url md =
     (case match_bib_url (item md ''bib_url'') of
        None \<Rightarrow>
          ([Print Stderr (print_line
              [''Fatal: bib_url field ('' @ item md ''bib_url'' @ '') in '' @
               quoted (CHR 0x27) ''meta'' @ '' file has wrong pattern''])],
           Inl (Exit 1))
      | Some groups \<Rightarrow> ([], Inr groups))"

subsection \<open>Accepted decisions and submissions (lines 57-93)\<close>

text \<open>
  \<^verbatim>\<open>entry[-1]\<close> is the last field; \<^verbatim>\<open>entry[1]\<close> and \<^verbatim>\<open>entry[2]\<close> raise IndexError
  on a shorter list.
\<close>

fun load_accepted ::
  "(string \<times> string) list \<Rightarrow> string list \<Rightarrow> exn + (string \<times> string) list" where
  "load_accepted accepted [] = Inr accepted"
| "load_accepted accepted (line # rest) =
     (let entry = split_str [CHR 0x09] (rstrip line) in
      if entry = [] then Inl IndexError
      else if last entry = ''ACCEPT''
      then (case entry of
              submission_id # title # _ \<Rightarrow>
                load_accepted (accepted @ [(submission_id, title)]) rest
            | _ \<Rightarrow> Inl IndexError)
      else load_accepted accepted rest)"

definition stage_accepted :: "env \<Rightarrow> (string \<times> string) list stage" where
  "stage_accepted e =
     (case load_accepted [] (accepted_lines e) of
        Inl x \<Rightarrow> ([], Inl (Uncaught x))
      | Inr accepted \<Rightarrow>
          ([Print Stdout (print_line
              [''Found '', str_nat (length accepted), '' accepted files''])],
           Inr accepted))"

type_synonym paper = "string \<times> string \<times> string list"

text \<open>The author field of line 80.\<close>

definition split_authors :: "string \<Rightarrow> string list" where
  "split_authors field = split_str '', '' (replace_str '' and'' '','' field)"

text \<open>
  The same field as the specification words it: the conjunction \<^verbatim>\<open>" and "\<close> rewritten
  to the delimiter \<^verbatim>\<open>", "\<close>, then split on the delimiter.  Only for comparison with
  \<open>split_authors\<close>; the script does not use it.
\<close>

definition split_authors_spec :: "string \<Rightarrow> string list" where
  "split_authors_spec field = split_str '', '' (replace_str '' and '' '', '' field)"

definition parse_submission :: "string \<Rightarrow> exn + paper" where
  "parse_submission line =
     (case split_str [CHR 0x09] (rstrip line) of
        submission_id # authors # title # _ \<Rightarrow>
          Inr (submission_id, title, split_authors authors)
      | _ \<Rightarrow> Inl IndexError)"

fun load_submissions :: "paper list \<Rightarrow> string list \<Rightarrow> exn + paper list" where
  "load_submissions submissions [] = Inr submissions"
| "load_submissions submissions (line # rest) =
     (case parse_submission line of
        Inl x \<Rightarrow> Inl x
      | Inr s \<Rightarrow> load_submissions (submissions @ [s]) rest)"

definition stage_submissions :: "env \<Rightarrow> paper list stage" where
  "stage_submissions e =
     (case load_submissions [] (submissions_lines e) of
        Inl x \<Rightarrow> ([], Inl (Uncaught x))
      | Inr submissions \<Rightarrow>
          ([Print Stdout (print_line
              [''Found '', str_nat (length submissions), '' submitted files''])],
           Inr submissions))"

text \<open>
  \<^verbatim>\<open>abstracts[row['#']] = row['abstract']\<close> for every row: a later row overwrites an
  earlier one with the same key, and \<^verbatim>\<open>len(abstracts)\<close> counts the distinct keys.
\<close>

definition load_abstracts :: "(string \<times> string) list \<Rightarrow> (string \<rightharpoonup> string)" where
  "load_abstracts rows = fold (\<lambda>(k, v) m. m(k \<mapsto> v)) rows Map.empty"

definition stage_abstracts :: "env \<Rightarrow> (string \<rightharpoonup> string) stage" where
  "stage_abstracts e =
     (if path_exists e ''submission.csv''
      then ([Print Stdout (print_line
               [''Found '', str_nat (length (remdups (map fst (csv_rows e)))), ''abstracts''])],
            Inr (load_abstracts (csv_rows e)))
      else ([], Inr Map.empty))"

subsection \<open>PDFs and the final list of papers (lines 100-126)\<close>

definition full_pdf_file :: "metadata \<Rightarrow> string" where
  "full_pdf_file md = ''pdf/'' @ item md ''abbrev'' @ ''_'' @ item md ''year'' @ ''.pdf''"

definition frontmatter_pdf_file :: "metadata \<Rightarrow> string" where
  "frontmatter_pdf_file md =
     ''pdf/'' @ item md ''abbrev'' @ ''_'' @ item md ''year'' @ ''_frontmatter.pdf''"

definition paper_glob :: "metadata \<Rightarrow> string" where
  "paper_glob md = ''pdf/'' @ item md ''abbrev'' @ ''_'' @ item md ''year'' @ ''_paper_*.pdf''"

text \<open>\<^verbatim>\<open>pdf_file.split('_')[-1].replace('.pdf', '')\<close>.\<close>

definition pdf_submission_id :: "string \<Rightarrow> string" where
  "pdf_submission_id pdf_file = replace_str ''.pdf'' [] (last (split_str ''_'' pdf_file))"

text \<open>
  The registry \<^verbatim>\<open>pdfs\<close>: seeded with the frontmatter under \<^verbatim>\<open>'0'\<close>, then one
  assignment per file that \<^verbatim>\<open>glob\<close> returned, in that order.
\<close>

fun add_pdfs :: "(string \<rightharpoonup> string) \<Rightarrow> string list \<Rightarrow> (string \<rightharpoonup> string)" where
  "add_pdfs pdfs [] = pdfs"
| "add_pdfs pdfs (pdf_file # rest) =
     add_pdfs (pdfs(pdf_submission_id pdf_file \<mapsto> pdf_file)) rest"

definition build_pdfs :: "string \<Rightarrow> string list \<Rightarrow> (string \<rightharpoonup> string)" where
  "build_pdfs frontmatter found = add_pdfs [''0'' \<mapsto> frontmatter] found"

definition stage_pdfs :: "env \<Rightarrow> metadata \<Rightarrow> (string \<rightharpoonup> string) stage" where
  "stage_pdfs e md =
     (if \<not> path_exists e (full_pdf_file md)
      then ([Print Stdout (print_line
               [''Fatal: could not find full volume PDF '' @
                quoted (CHR 0x27) (full_pdf_file md)])],
            Inl (Exit 1))
      else if \<not> path_exists e (frontmatter_pdf_file md)
      then ([Print Stdout (print_line
               [''Fatal: could not find frontmatter PDF file '' @
                quoted (CHR 0x27) (frontmatter_pdf_file md)])],
            Inl (Exit 1))
      else ([], Inr (build_pdfs (frontmatter_pdf_file md) (glob e (paper_glob md)))))"

text \<open>
  The inner loop of lines 123-126: the first submission, in file order, whose id and
  title are those of the accepted decision.
\<close>

fun first_match :: "string \<times> string \<Rightarrow> paper list \<Rightarrow> paper option" where
  "first_match a [] = None"
| "first_match a (s # rest) =
     (if fst s = fst a \<and> fst (snd s) = snd a then Some s else first_match a rest)"

text \<open>The outer loop of lines 122-126, appending to \<^verbatim>\<open>final_papers\<close>.\<close>

fun join_papers :: "paper list \<Rightarrow> (string \<times> string) list \<Rightarrow> paper list \<Rightarrow> paper list" where
  "join_papers final_papers [] submissions = final_papers"
| "join_papers final_papers (a # rest) submissions =
     (case first_match a submissions of
        None \<Rightarrow> join_papers final_papers rest submissions
      | Some s \<Rightarrow> join_papers (final_papers @ [s]) rest submissions)"

definition final_papers :: "metadata \<Rightarrow> (string \<times> string) list \<Rightarrow> paper list \<Rightarrow> paper list" where
  "final_papers md accepted submissions =
     join_papers [(''0'', item md ''booktitle'', chairs md)] accepted submissions"

subsection \<open>Writing the proceedings (lines 132-203)\<close>

text \<open>
  The file system as far as the script asks about it: which paths exist.
  \<^verbatim>\<open>os.makedirs(d)\<close> creates \<open>d\<close> and its missing ancestors; copying and writing
  create their target.
\<close>

definition with_dirs :: "string \<Rightarrow> (string \<Rightarrow> bool) \<Rightarrow> (string \<Rightarrow> bool)" where
  "with_dirs d fs = (\<lambda>p. p = d \<or> (p \<noteq> [] \<and> prefix (p @ ''/'') d) \<or> fs p)"

definition with_file :: "string \<Rightarrow> (string \<Rightarrow> bool) \<Rightarrow> (string \<Rightarrow> bool)" where
  "with_file f fs = (\<lambda>p. p = f \<or> fs p)"

record progress =
  paper_id :: nat
  final_bibs :: "string list"
  fs :: "string \<Rightarrow> bool"
  done_events :: "event list"

definition emit :: "event list \<Rightarrow> progress \<Rightarrow> progress" where
  "emit es st = st\<lparr>done_events := done_events st @ es\<rparr>"

text \<open>\<^verbatim>\<open>if not os.path.exists(d): os.makedirs(d)\<close>.\<close>

definition ensure_dir :: "string \<Rightarrow> progress \<Rightarrow> progress" where
  "ensure_dir d st =
     (if \<not> fs st d then emit [Makedirs d] (st\<lparr>fs := with_dirs d (fs st)\<rparr>) else st)"

text \<open>
  Lines 133-140.  \<^verbatim>\<open>os.path.join('proceedings/cdrom', dir)\<close> puts a slash between its
  arguments.
\<close>

definition prepare :: "env \<Rightarrow> progress" where
  "prepare e =
     (let st = \<lparr>paper_id = 0, final_bibs = [], fs = path_exists e, done_events = []\<rparr>;
          st = fold (\<lambda>dir. ensure_dir (''proceedings/cdrom'' @ ''/'' @ dir)) [''bib'', ''pdf''] st;
          st = emit [Print Stderr (print_line [''COPYING meta -> proceedings/meta'']),
                     Copy ''meta'' ''proceedings/meta''] st
      in st\<lparr>fs := with_file ''proceedings/meta'' (fs st)\<rparr>)"

text \<open>What the loop of lines 144-191 reads but does not change.\<close>

record tables =
  meta :: metadata
  anthology_collection :: string
  anthology_year :: string
  anthology_volume :: string
  anthology_paper_width :: string
  pdfs :: "string \<rightharpoonup> string"
  abstracts :: "string \<rightharpoonup> string"

text \<open>\<^verbatim>\<open>dest_path\<close> of line 153, from the formatted identifier.\<close>

definition dest_path :: "tables \<Rightarrow> string \<Rightarrow> string" where
  "dest_path t formatted_id =
     ''proceedings/cdrom/pdf/'' @ anthology_collection t @ anthology_year t @ ''-'' @
     anthology_volume t @ formatted_id @ ''.pdf''"

definition make_entry :: "env \<Rightarrow> tables \<Rightarrow> paper \<Rightarrow> bib_entry" where
  "make_entry e t entry =
     (case entry of (submission_id, paper_title, authors) \<Rightarrow>
        let bib_type = (if submission_id \<noteq> ''0'' then ''inproceedings'' else ''proceedings'');
            bib_entry = \<lparr>entry_type = bib_type,
                         entry_fields =
                           [(''author'', texify (unicode_to_tex e) (join_str '' and '' authors)),
                            (''title'', paper_title),
                            (''year'', item (meta t) ''year''),
                            (''month'', item (meta t) ''month''),
                            (''address'', item (meta t) ''location''),
                            (''publisher'', item (meta t) ''publisher'')]\<rparr>;
            bib_entry = (case abstracts t submission_id of
                           Some a \<Rightarrow> bib_entry\<lparr>entry_fields := entry_fields bib_entry @ [(''abstract'', a)]\<rparr>
                         | None \<Rightarrow> bib_entry)
        in if bib_type = ''inproceedings''
           then bib_entry\<lparr>entry_fields :=
                  entry_fields bib_entry @ [(''booktitle'', item (meta t) ''booktitle'')]\<rparr>
           else bib_entry)"

text \<open>
  One turn of the loop.  A turn that aborts gives the events of the whole run so far and
  how the run ends: with \<^verbatim>\<open>sys.exit(1)\<close>, or with the ValueError of the format call or
  an exception of the encoder other than the TypeError that line 185 catches.
\<close>

definition emit_paper :: "env \<Rightarrow> tables \<Rightarrow> progress \<Rightarrow> paper \<Rightarrow> (event list \<times> outcome) + progress" where
  "emit_paper e t st entry =
     (case entry of (submission_id, paper_title, authors) \<Rightarrow>
        (case pdfs t submission_id of
           None \<Rightarrow>
             Inl (done_events st @
                    [Print Stderr (print_line
                       [''Fatal: no PDF found for paper'', str_nat (paper_id st)])],
                  Exit 1)
         | Some pdf_path \<Rightarrow>
             (case format_id (anthology_paper_width t) (paper_id st) of
                Inl x \<Rightarrow> Inl (done_events st, Uncaught x)
              | Inr formatted_id \<Rightarrow>
                  let dest = dest_path t formatted_id;
                      st = st\<lparr>paper_id := paper_id st + 1\<rparr>;
                      st = emit [Copy pdf_path dest,
                                 Print Stderr (print_line [''COPYING'', pdf_path, ''->'', dest])]
                             (st\<lparr>fs := with_file dest (fs st)\<rparr>);
                      bib_path = replace_str ''pdf'' ''bib'' dest;
                      st = ensure_dir (dirname bib_path) st;
                      anthology_id = replace_str ''.pdf'' [] (basename dest)
                  in (case to_bibtex e anthology_id (make_entry e t entry) of
                        Inl x \<Rightarrow>
                          if x = TypeError
                          then Inl (done_events st @
                                      [Print Stderr (print_line
                                         [''Fatal: Error in BibTeX-encoding paper'',
                                          submission_id])],
                                    Exit 1)
                          else Inl (done_events st, Uncaught x)
                      | Inr bib_string \<Rightarrow>
                          Inr (emit [WriteFile bib_path (print_line [bib_string]),
                                     Print Stdout (print_line [''CREATED'', bib_path])]
                                 (st\<lparr>final_bibs := final_bibs st @ [bib_string],
                                     fs := with_file bib_path (fs st)\<rparr>))))))"

fun emit_papers :: "env \<Rightarrow> tables \<Rightarrow> progress \<Rightarrow> paper list \<Rightarrow> (event list \<times> outcome) + progress" where
  "emit_papers e t st [] = Inr st"
| "emit_papers e t st (entry # rest) =
     (case emit_paper e t st entry of
        Inl stop \<Rightarrow> Inl stop
      | Inr st' \<Rightarrow> emit_papers e t st' rest)"

text \<open>Lines 194-203: the volume-level bibliography and the copy of the full volume.\<close>

definition dest_bib :: "metadata \<Rightarrow> string" where
  "dest_bib md = ''proceedings/cdrom/'' @ item md ''abbrev'' @ ''-'' @ item md ''year'' @ ''.bib''"

definition finish :: "metadata \<Rightarrow> progress \<Rightarrow> event list" where
  "finish md st =
     (let dest_pdf = replace_str ''bib'' ''pdf'' (dest_bib md) in
      done_events st @
      [WriteFile (dest_bib md) (print_line [join_str [CHR 0x0A] (final_bibs st)]),
       Print Stdout (print_line [''CREATED'', dest_bib md]),
       Print Stderr (print_line [''COPYING'', full_pdf_file md, ''->'', dest_pdf]),
       Copy (full_pdf_file md) dest_pdf])"

definition stage_write ::
  "env \<Rightarrow> tables \<Rightarrow> paper list \<Rightarrow> event list \<times> outcome" where
  "stage_write e t papers =
     (case emit_papers e t (prepare e) papers of
        Inl stop \<Rightarrow> stop
      | Inr st \<Rightarrow> (finish (meta t) st, Finished))"

subsection \<open>The whole script\<close>

definition load_all :: "env \<Rightarrow> (tables \<times> paper list) stage" where
  "load_all e =
     and_then (stage_metadata e) (\<lambda>md.
     and_then (stage_bib_url md) (\<lambda>(letter, year, volume, width).
     and_then (stage_accepted e) (\<lambda>accepted.
     and_then (stage_submissions e) (\<lambda>submissions.
     and_then (stage_abstracts e) (\<lambda>abstracts.
     and_then (stage_pdfs e md) (\<lambda>pdfs.
       ([], Inr (\<lparr>meta = md, anthology_collection = letter, anthology_year = year,
                  anthology_volume = volume, anthology_paper_width = width,
                  pdfs = pdfs, abstracts = abstracts\<rparr>,
                 final_papers md accepted submissions))))))))"

definition run :: "env \<Rightarrow> event list \<times> outcome" where
  "run e =
     (case load_all e of
        (es, Inl out) \<Rightarrow> (es, out)
      | (es, Inr (t, papers)) \<Rightarrow>
          (case stage_write e t papers of (es', out) \<Rightarrow> (es @ es', out)))"

subsection \<open>Reading a list of events\<close>

text \<open>The files copied (source and target) and the files written (path and content), in order.\<close>

fun copies :: "event list \<Rightarrow> (string \<times> string) list" where
  "copies [] = []"
| "copies (Copy src dst # es) = (src, dst) # copies es"
| "copies (_ # es) = copies es"

fun writes :: "event list \<Rightarrow> (string \<times> string) list" where
  "writes [] = []"
| "writes (WriteFile path content # es) = (path, content) # writes es"
| "writes (_ # es) = writes es"

text \<open>The copies whose target is a PDF file.\<close>

definition pdf_outputs :: "event list \<Rightarrow> (string \<times> string) list" where
  "pdf_outputs es = filter (\<lambda>(src, dst). drop (length dst - 4) dst = ''.pdf'') (copies es)"


text \<open>
  The output identifier \<open>n\<close> as the format call gives it when it does not raise, and
  \<^verbatim>\<open>dest_path\<close> and \<^verbatim>\<open>bib_path\<close> (lines 153 and 159) for that identifier.
\<close>

definition output_id :: "tables \<Rightarrow> nat \<Rightarrow> string" where
  "output_id t n = zero_pad (nat (int_of_digits (anthology_paper_width t))) (str_nat n)"

definition output_path :: "tables \<Rightarrow> nat \<Rightarrow> string" where
  "output_path t n = dest_path t (output_id t n)"

definition bib_path :: "tables \<Rightarrow> nat \<Rightarrow> string" where
  "bib_path t n = replace_str ''pdf'' ''bib'' (output_path t n)"

text \<open>
  The state of a turn of the loop at line 163, once the PDF is found and the identifier
  formatted: the PDF copied to its place, the directory of the bibliography file there.
\<close>

definition after_copy :: "tables \<Rightarrow> progress \<Rightarrow> string \<Rightarrow> progress" where
  "after_copy t st pdf =
     ensure_dir (dirname (bib_path t (paper_id st)))
       (emit [Copy pdf (output_path t (paper_id st)),
              Print Stderr (print_line [''COPYING'', pdf, ''->'', output_path t (paper_id st)])]
          (st\<lparr>paper_id := paper_id st + 1,
              fs := with_file (output_path t (paper_id st)) (fs st)\<rparr>))"

subsection \<open>An example run\<close>

text \<open>
  A small conference, used to evaluate the model: one accepted paper, its PDF, and
  stand-ins for the two library functions.
\<close>

definition example_u2t :: "string \<Rightarrow> string" where
  "example_u2t s = concat (map (\<lambda>c. if is_ascii c then [c] else ''?'') s)"

definition example_bibtex :: "string \<Rightarrow> bib_entry \<Rightarrow> exn + string" where
  "example_bibtex k en =
     Inr (''@'' @ entry_type en @ ''{'' @ k @
           concat (map (\<lambda>(a, b). '','' @ a @ ''='' @ b) (entry_fields en)) @ ''}'')"

definition example_env :: env where
  "example_env =
     \<lparr>meta_lines =
        [''abbrev ws'', ''title The Workshop'', ''booktitle Proceedings of WS'',
         ''month June'', ''year 2019'', ''location Oz'', ''publisher ACL'',
         ''chairs Ann Lee'', ''chairs Bob Ray'',
         ''bib_url https://www.aclweb.org/anthology/W19-0%02d''],
      accepted_lines = [''1'' @ [CHR 0x09] @ ''T'' @ [CHR 0x09] @ ''ACCEPT''],
      submissions_lines = [''1'' @ [CHR 0x09] @ ''A and B'' @ [CHR 0x09] @ ''T''],
      csv_rows = [],
      path_exists = (\<lambda>p. p \<in> set [''pdf/ws_2019.pdf'', ''pdf/ws_2019_frontmatter.pdf'',
                                     ''pdf/ws_2019_paper_1.pdf'']),
      glob = (\<lambda>p. if p = ''pdf/ws_2019_paper_*.pdf'' then [''pdf/ws_2019_paper_1.pdf''] else []),
      unicode_to_tex = example_u2t,
      to_bibtex = example_bibtex\<rparr>"

text \<open>What the example run has loaded when it reaches line 132.\<close>

definition example_tables :: tables where
  "example_tables =
     \<lparr>meta = \<lparr>chairs = [''Ann Lee'', ''Bob Ray''],
              others = [''abbrev'' \<mapsto> ''ws'', ''title'' \<mapsto> ''The Workshop'',
                        ''booktitle'' \<mapsto> ''Proceedings of WS'', ''month'' \<mapsto> ''June'',
                        ''year'' \<mapsto> ''2019'', ''location'' \<mapsto> ''Oz'',
                        ''publisher'' \<mapsto> ''ACL'',
                        ''bib_url'' \<mapsto> ''https://www.aclweb.org/anthology/W19-0%02d'']\<rparr>,
      anthology_collection = ''W'', anthology_year = ''19'', anthology_volume = ''0'',
      anthology_paper_width = ''2'',
      pdfs = build_pdfs ''pdf/ws_2019_frontmatter.pdf'' [''pdf/ws_2019_paper_1.pdf''],
      abstracts = Map.empty\<rparr>"

definition example_papers :: "paper list" where
  "example_papers =
     final_papers (meta example_tables) [(''1'', ''T'')] [(''1'', ''T'', [''A'', ''B''])]"

section \<open>Properties\<close>

subsection \<open>The join of accepted decisions and submissions\<close>

lemma first_match_find:
  "first_match a subs = find (\<lambda>s. fst s = fst a \<and> fst (snd s) = snd a) subs"
  by (induction subs) auto

lemma join_papers_concat:
  "join_papers fp accepted subs =
     fp @ concat (map (\<lambda>a. case first_match a subs of None \<Rightarrow> [] | Some s \<Rightarrow> [s]) accepted)"
  by (induction accepted arbitrary: fp) (auto split: option.splits)

text \<open>
  Claim C1.  The final list is the frontmatter entry followed, for every accepted decision
  in file order, by the first submission in file order whose id and title are both equal
  to the decision's, or by nothing when no submission matches.  The join is a pure
  function: it has no event and no way to abort, so an unmatched decision leaves no
  trace.  For submissions \<open>[("1","T",["A","B"])]\<close> and accepted \<open>[("1","T")]\<close> the list
  after the frontmatter has the one element with authors \<open>["A","B"]\<close>.
\<close>

theorem join_first_match_wins:
  "final_papers md accepted subs =
     (''0'', item md ''booktitle'', chairs md) #
     concat (map (\<lambda>a. case find (\<lambda>s. fst s = fst a \<and> fst (snd s) = snd a) subs of
                          None \<Rightarrow> [] | Some s \<Rightarrow> [s]) accepted)
   \<and> final_papers md [(''1'', ''T'')] [(''1'', ''T'', [''A'', ''B''])] =
       [(''0'', item md ''booktitle'', chairs md), (''1'', ''T'', [''A'', ''B''])]"
  by (simp add: final_papers_def join_papers_concat first_match_find)

subsection \<open>Whitespace splitting\<close>

lemma split_ws_go_skip: "split_ws_go [] (dropWhile is_space s) = split_ws_go [] s"
  by (induction s) auto

lemma split_ws_go_token:
  "split_ws_go tok s =
     (if tok @ takeWhile (\<lambda>c. \<not> is_space c) s = [] then []
      else [tok @ takeWhile (\<lambda>c. \<not> is_space c) s]) @
     split_ws_go [] (dropWhile is_space (dropWhile (\<lambda>c. \<not> is_space c) s))"
proof (induction s arbitrary: tok)
  case Nil
  then show ?case by simp
next
  case (Cons c cs)
  show ?case
  proof (cases "is_space c")
    case True
    then show ?thesis using split_ws_go_skip [of cs] by simp
  next
    case False
    then show ?thesis using Cons.IH [of "tok @ [c]"] by simp
  qed
qed

lemma split_ws_go_trailing:
  "list_all is_space ws \<Longrightarrow> split_ws_go tok (s @ ws) = split_ws_go tok s"
proof (induction s arbitrary: tok)
  case Nil
  have "list_all is_space ws \<Longrightarrow> split_ws_go [] ws = []" by (induction ws) auto
  with Nil show ?case by (cases ws) auto
next
  case (Cons c cs)
  then show ?case by simp
qed

lemma rstrip_decomp: "\<exists>ws. list_all is_space ws \<and> s = rstrip s @ ws"
proof -
  have "rev s = takeWhile is_space (rev s) @ dropWhile is_space (rev s)" by simp
  then have "s = rev (dropWhile is_space (rev s)) @ rev (takeWhile is_space (rev s))"
    by (metis rev_append rev_rev_ident)
  moreover have "list_all is_space (rev (takeWhile is_space (rev s)))"
    by (simp add: list_all_iff) (meson set_takeWhileD)
  ultimately show ?thesis unfolding rstrip_def by blast
qed

lemma split_ws_rstrip: "split_ws (rstrip s) = split_ws s"
proof -
  obtain ws where "list_all is_space ws" "s = rstrip s @ ws" using rstrip_decomp by blast
  then show ?thesis unfolding split_ws_def using split_ws_go_trailing [of ws "[]" "rstrip s"] by simp
qed

lemma dropWhile_space_head: "dropWhile is_space s = c # cs \<Longrightarrow> \<not> is_space c"
  using hd_dropWhile [of is_space s] by simp

lemma split_ws_go_head: "\<not> is_space c \<Longrightarrow> split_ws_go [] (c # cs) \<noteq> []"
  using split_ws_go_token [of "[c]" cs] by simp

lemma split_ws_nonempty: "split_ws_go [] s = [] \<longleftrightarrow> dropWhile is_space s = []"
proof (cases "dropWhile is_space s")
  case Nil
  have "split_ws_go [] (dropWhile is_space s) = []" unfolding Nil by simp
  then have "split_ws_go [] s = []" by (simp add: split_ws_go_skip)
  then show ?thesis unfolding Nil by simp
next
  case (Cons c cs)
  have "split_ws_go [] (dropWhile is_space s) \<noteq> []"
    unfolding Cons using dropWhile_space_head [OF Cons] by (rule split_ws_go_head)
  then have "split_ws_go [] s \<noteq> []" by (simp add: split_ws_go_skip)
  then show ?thesis unfolding Cons by simp
qed

lemma split_ws_max1_length:
  "length (split_ws_max1 s) = min 2 (length (split_ws s))"
proof (cases "dropWhile is_space s")
  case Nil
  then have "split_ws s = []" using split_ws_nonempty [of s] by (simp only: split_ws_def)
  moreover have "split_ws_max1 s = []" unfolding split_ws_max1_def Let_def Nil by simp
  ultimately show ?thesis by simp
next
  case (Cons c cs)
  then have c: "\<not> is_space c" by (rule dropWhile_space_head)
  define k where "k = takeWhile (\<lambda>c. \<not> is_space c) (c # cs)"
  define v where "v = dropWhile is_space (dropWhile (\<lambda>c. \<not> is_space c) (c # cs))"
  have "split_ws s = split_ws_go [] (dropWhile is_space s)"
    by (simp only: split_ws_def split_ws_go_skip)
  also have "\<dots> = split_ws_go [] (c # cs)" by (simp only: Cons)
  also have "\<dots> = [k] @ split_ws_go [] v"
    unfolding k_def v_def using c split_ws_go_token [of "[]" "c # cs"] by simp
  finally have eq: "split_ws s = k # split_ws_go [] v" by simp
  have m: "split_ws_max1 s = (if v = [] then [k] else [k, v])"
    unfolding split_ws_max1_def Let_def Cons k_def v_def by simp
  show ?thesis
  proof (cases "v = []")
    case True
    then show ?thesis using eq m by simp
  next
    case False
    then have "split_ws_go [] v \<noteq> []"
      using split_ws_nonempty [of v] unfolding v_def by simp
    then have "2 \<le> length (split_ws s)" using eq by (cases "split_ws_go [] v") auto
    then show ?thesis using False m by simp
  qed
qed

subsection \<open>The metadata loader\<close>

lemma split_ws_max1_pair:
  "2 \<le> length (split_ws line) \<Longrightarrow> \<exists>key v. split_ws_max1 (rstrip line) = [key, v]"
proof -
  assume "2 \<le> length (split_ws line)"
  then have "length (split_ws_max1 (rstrip line)) = 2"
    by (simp add: split_ws_max1_length split_ws_rstrip)
  then show ?thesis
    by (metis One_nat_def Suc_1 length_0_conv length_Suc_conv)
qed

lemma split_ws_max1_short:
  "\<not> 2 \<le> length (split_ws line) \<Longrightarrow> length (split_ws_max1 (rstrip line)) < 2"
  by (simp add: split_ws_max1_length split_ws_rstrip)

lemma load_metadata_total:
  "list_all (\<lambda>line. 2 \<le> length (split_ws line)) lines \<Longrightarrow> \<exists>md'. load_metadata md lines = Inr md'"
proof (induction lines arbitrary: md)
  case Nil
  then show ?case by simp
next
  case (Cons line rest)
  from Cons.prems have "2 \<le> length (split_ws line)" by simp
  then obtain key v where "split_ws_max1 (rstrip line) = [key, v]"
    using split_ws_max1_pair by blast
  moreover from Cons.prems have "list_all (\<lambda>line. 2 \<le> length (split_ws line)) rest" by simp
  ultimately show ?case using Cons.IH by simp
qed

lemma load_metadata_unpack:
  "\<not> list_all (\<lambda>line. 2 \<le> length (split_ws line)) lines \<Longrightarrow> load_metadata md lines = Inl ValueError"
proof (induction lines arbitrary: md)
  case Nil
  then show ?case by simp
next
  case (Cons line rest)
  show ?case
  proof (cases "2 \<le> length (split_ws line)")
    case True
    then obtain key v where kv: "split_ws_max1 (rstrip line) = [key, v]"
      using split_ws_max1_pair by blast
    from True Cons.prems have "\<not> list_all (\<lambda>line. 2 \<le> length (split_ws line)) rest" by simp
    then show ?thesis using Cons.IH kv by simp
  next
    case False
    then have "length (split_ws_max1 (rstrip line)) < 2" by (rule split_ws_max1_short)
    then show ?thesis
      by (cases "split_ws_max1 (rstrip line)") (auto split: list.splits)
  qed
qed

lemma run_metadata_abort:
  "stage_metadata e = (es, Inl out) \<Longrightarrow> run e = (es, out)"
  by (simp add: run_def load_all_def and_then_def)

text \<open>
  Claim C10.  The metadata loader returns a dictionary exactly when every line of the
  meta file has at least two whitespace-separated tokens.  When some line has fewer (a
  blank line, or a key without a value), the unpacking of line 37 raises ValueError: the
  run ends with that uncaught exception and no event at all, so the required-key check
  of lines 43-46 and its diagnostic are never reached.
\<close>

theorem metadata_loader_unpacking:
  "(if list_all (\<lambda>line. 2 \<le> length (split_ws line)) (meta_lines e)
    then \<exists>md. load_metadata metadata0 (meta_lines e) = Inr md
    else load_metadata metadata0 (meta_lines e) = Inl ValueError
       \<and> stage_metadata e = ([], Inl (Uncaught ValueError))
       \<and> run e = ([], Uncaught ValueError))"
proof (cases "list_all (\<lambda>line. 2 \<le> length (split_ws line)) (meta_lines e)")
  case True
  then show ?thesis using load_metadata_total [of "meta_lines e" metadata0] by simp
next
  case False
  then have l: "load_metadata metadata0 (meta_lines e) = Inl ValueError"
    by (rule load_metadata_unpack)
  then have s: "stage_metadata e = ([], Inl (Uncaught ValueError))"
    by (simp add: stage_metadata_def)
  from s have "run e = ([], Uncaught ValueError)" by (rule run_metadata_abort)
  with False l s show ?thesis by simp
qed

theorem metadata_loader_unpacking_witness:
  "run (example_env\<lparr>meta_lines := [''abbrev ws'', ''title'']\<rparr>) = ([], Uncaught ValueError)"
  using metadata_loader_unpacking [of "example_env\<lparr>meta_lines := [''abbrev ws'', ''title'']\<rparr>"]
  by (simp add: split_ws_def is_space_def)

subsection \<open>texify\<close>

lemma split_ws_go_word:
  assumes "t \<noteq> []" "list_all (\<lambda>c. \<not> is_space c) t"
  shows "split_ws_go [] (t @ CHR '' '' # rest) = t # split_ws_go [] rest"
proof -
  have tw: "takeWhile (\<lambda>c. \<not> is_space c) (t @ CHR '' '' # rest) = t"
    using assms(2) by (induction t) (auto simp: is_space_def)
  have dw: "dropWhile (\<lambda>c. \<not> is_space c) (t @ CHR '' '' # rest) = CHR '' '' # rest"
    using assms(2) by (induction t) (auto simp: is_space_def)
  have "split_ws_go [] (t @ CHR '' '' # rest) =
          [t] @ split_ws_go [] (dropWhile is_space (CHR '' '' # rest))"
    using split_ws_go_token [of "[]" "t @ CHR '' '' # rest"] assms(1) by (simp only: tw dw) simp
  also have "split_ws_go [] (dropWhile is_space (CHR '' '' # rest)) = split_ws_go [] (CHR '' '' # rest)"
    by (rule split_ws_go_skip)
  also have "\<dots> = split_ws_go [] rest" by (simp add: is_space_def)
  finally show ?thesis by simp
qed

lemma split_ws_go_last:
  assumes "t \<noteq> []" "list_all (\<lambda>c. \<not> is_space c) t"
  shows "split_ws_go [] t = [t]"
proof -
  have tw: "takeWhile (\<lambda>c. \<not> is_space c) t = t"
    using assms(2) by (induction t) auto
  have dw: "dropWhile (\<lambda>c. \<not> is_space c) t = []"
    using assms(2) by (induction t) auto
  show ?thesis using split_ws_go_token [of "[]" t] assms(1) by (simp only: tw dw) simp
qed

lemma split_ws_join:
  "list_all (\<lambda>t. t \<noteq> [] \<and> list_all (\<lambda>c. \<not> is_space c) t) toks \<Longrightarrow>
   split_ws (join_str '' '' toks) = toks"
proof (induction "'' ''" toks rule: join_str.induct)
  case 1
  then show ?case by (simp add: split_ws_def)
next
  case (2 x)
  then show ?case by (simp add: split_ws_def split_ws_go_last)
next
  case (3 x y ys)
  then have "split_ws (join_str '' '' (y # ys)) = y # ys" by simp
  moreover have "split_ws_go [] (x @ CHR '' '' # join_str '' '' (y # ys)) =
                 x # split_ws_go [] (join_str '' '' (y # ys))"
    using 3 by (intro split_ws_go_word) auto
  ultimately show ?case by (simp add: split_ws_def)
qed

subsection \<open>The bibliography URL\<close>

lemma lit_Some: "lit p s = Some r \<longleftrightarrow> s = p @ r"
  by (auto simp: lit_def prefix_def)

lemma one_Some: "one P s = Some (c, r) \<longleftrightarrow> s = c # r \<and> P c"
  by (cases s) (auto simp: one_def)

lemma many1_Some:
  "many1 P s = Some (a, r) \<longleftrightarrow>
     a \<noteq> [] \<and> s = a @ r \<and> list_all P a \<and> (case r of [] \<Rightarrow> True | c # _ \<Rightarrow> \<not> P c)"
proof
  assume "many1 P s = Some (a, r)"
  then have a: "a = takeWhile P s" and r: "r = dropWhile P s" and ne: "a \<noteq> []"
    by (auto simp: many1_def split: if_splits)
  have "case dropWhile P s of [] \<Rightarrow> True | c # _ \<Rightarrow> \<not> P c"
  proof (cases "dropWhile P s")
    case Nil
    then show ?thesis unfolding Nil by simp
  next
    case (Cons c cs)
    then have "\<not> P c" using hd_dropWhile [of P s] by simp
    then show ?thesis unfolding Cons by simp
  qed
  moreover have "list_all P (takeWhile P s)"
    by (simp add: list_all_iff) (meson set_takeWhileD)
  ultimately show "a \<noteq> [] \<and> s = a @ r \<and> list_all P a \<and> (case r of [] \<Rightarrow> True | c # _ \<Rightarrow> \<not> P c)"
    using a r ne by simp
next
  assume h: "a \<noteq> [] \<and> s = a @ r \<and> list_all P a \<and> (case r of [] \<Rightarrow> True | c # _ \<Rightarrow> \<not> P c)"
  then have "takeWhile P s = a"
    by (cases r) (auto simp: list_all_iff takeWhile_append)
  moreover from h have "dropWhile P s = r"
    by (cases r) (auto simp: list_all_iff dropWhile_append)
  ultimately show "many1 P s = Some (a, r)" using h by (simp add: many1_def)
qed

lemma match_bib_url_groups:
  "match_bib_url s = Some (l, y, vol, w) \<longleftrightarrow>
     (\<exists>c1 c2 L y1 y2 rest.
        s = ''https://www'' @ [c1] @ ''aclweb'' @ [c2] @ ''org/anthology/'' @
            [L] @ [y1, y2] @ ''-'' @ vol @ ''%0'' @ w @ ''d'' @ rest
        \<and> c1 \<noteq> CHR 0x0A \<and> c2 \<noteq> CHR 0x0A \<and> is_upper_AZ L \<and> is_digit y1 \<and> is_digit y2
        \<and> vol \<noteq> [] \<and> list_all is_digit vol \<and> w \<noteq> [] \<and> list_all is_digit w
        \<and> l = [L] \<and> y = [y1, y2])"
  (is "?lhs \<longleftrightarrow> ?rhs")
proof
  assume ?lhs
  then show ?rhs
    unfolding match_bib_url_def
    by (auto simp: bind_eq_Some_conv lit_Some one_Some many1_Some dot_def)
next
  assume ?rhs
  then obtain c1 c2 L y1 y2 rest where
    s: "s = ''https://www'' @ [c1] @ ''aclweb'' @ [c2] @ ''org/anthology/'' @
            [L] @ [y1, y2] @ ''-'' @ vol @ ''%0'' @ w @ ''d'' @ rest"
    and c: "c1 \<noteq> CHR 0x0A" "c2 \<noteq> CHR 0x0A" "is_upper_AZ L" "is_digit y1" "is_digit y2"
    and v: "vol \<noteq> []" "list_all is_digit vol" and w: "w \<noteq> []" "list_all is_digit w"
    and l: "l = [L]" "y = [y1, y2]" by blast
  have m1: "many1 is_digit (vol @ ''%0'' @ w @ ''d'' @ rest) = Some (vol, ''%0'' @ w @ ''d'' @ rest)"
    using v by (simp add: many1_Some is_digit_def)
  have m2: "many1 is_digit (w @ ''d'' @ rest) = Some (w, ''d'' @ rest)"
    using w by (simp add: many1_Some is_digit_def)
  have l1: "lit ''%0'' (''%0'' @ w @ ''d'' @ rest) = Some (w @ ''d'' @ rest)"
    by (simp add: lit_Some)
  have l2: "lit ''d'' (''d'' @ rest) = Some rest" by (simp add: lit_Some)
  show ?lhs
    unfolding match_bib_url_def s using c l m1 m2 l1 l2
    by (simp add: lit_def one_def dot_def)
qed


lemma match_bib_url_shape:
  "match_bib_url s = Some (l, y, vol, w) \<longleftrightarrow> bib_url_shape s l y vol w"
proof -
  have 1: "length l = 1 \<and> list_all is_upper_AZ l \<longleftrightarrow> (\<exists>L. l = [L] \<and> is_upper_AZ L)" for l
    by (cases l) auto
  have 2: "length y = 2 \<and> list_all is_digit y \<longleftrightarrow>
           (\<exists>y1 y2. y = [y1, y2] \<and> is_digit y1 \<and> is_digit y2)" for y
  proof (cases y)
    case Nil
    then show ?thesis by simp
  next
    case (Cons a as)
    then show ?thesis by (cases as) auto
  qed
  show ?thesis
  proof
    assume "match_bib_url s = Some (l, y, vol, w)"
    then show "bib_url_shape s l y vol w"
      unfolding match_bib_url_groups bib_url_shape_def by auto
  next
    assume "bib_url_shape s l y vol w"
    then obtain c1 c2 rest where
      s: "s = ''https://www'' @ [c1] @ ''aclweb'' @ [c2] @ ''org/anthology/'' @
            l @ y @ ''-'' @ vol @ ''%0'' @ w @ ''d'' @ rest"
      and c: "c1 \<noteq> CHR 0x0A" "c2 \<noteq> CHR 0x0A"
      and l: "length l = 1 \<and> list_all is_upper_AZ l"
      and y: "length y = 2 \<and> list_all is_digit y"
      and v: "vol \<noteq> []" "list_all is_digit vol" "w \<noteq> []" "list_all is_digit w"
      unfolding bib_url_shape_def by blast
    from l obtain L where L: "l = [L]" "is_upper_AZ L" using 1 by blast
    from y obtain y1 y2 where Y: "y = [y1, y2]" "is_digit y1" "is_digit y2" using 2 by blast
    show "match_bib_url s = Some (l, y, vol, w)"
      unfolding match_bib_url_groups
      using s c v L Y by auto
  qed
qed

lemma match_bib_url_None:
  "match_bib_url s = None \<longleftrightarrow> \<not> (\<exists>l y vol w. bib_url_shape s l y vol w)"
proof -
  have "(\<exists>l y vol w. bib_url_shape s l y vol w) \<longleftrightarrow>
        (\<exists>l y vol w. match_bib_url s = Some (l, y, vol, w))"
    by (simp only: match_bib_url_shape)
  also have "\<dots> \<longleftrightarrow> match_bib_url s \<noteq> None"
    by (cases "match_bib_url s") auto
  finally show ?thesis by blast
qed

lemma run_bib_url_abort:
  "stage_metadata e = ([], Inr md) \<Longrightarrow> stage_bib_url md = (es, Inl out) \<Longrightarrow> run e = (es, out)"
  by (simp add: run_def load_all_def and_then_def)

lemmas matcher_eval = match_bib_url_def lit_def one_def many1_def dot_def is_digit_def is_upper_AZ_def

text \<open>
  Claim C4, as amended.  The match of line 48 is decided for every string: it yields the
  groups \<open>(l, y, vol, w)\<close> exactly when the string has the shape of the pattern with
  those groups, and nothing exactly when it has that shape for no groups.  The literal
  host \<^verbatim>\<open>www.aclweb.org\<close> is part of the pattern: for
  \<^verbatim>\<open>https://www.aclweb.org/anthology/W19-0%02d\<close> the groups are \<open>("W", "19", "0", "2")\<close>.
  When the \<^verbatim>\<open>bib_url\<close> value does not match, the run prints the fatal message on the
  error stream and exits with status 1.
\<close>

theorem bib_url_parse:
  "match_bib_url ''https://www.aclweb.org/anthology/W19-0%02d'' = Some (''W'', ''19'', ''0'', ''2'')
   \<and> (match_bib_url s = Some (l, y, vol, w) \<longleftrightarrow> bib_url_shape s l y vol w)
   \<and> (match_bib_url s = None \<longleftrightarrow> \<not> (\<exists>l y vol w. bib_url_shape s l y vol w))
   \<and> (match_bib_url (item md ''bib_url'') = None \<longrightarrow>
        stage_bib_url md =
          ([Print Stderr (print_line
              [''Fatal: bib_url field ('' @ item md ''bib_url'' @ '') in '' @
               quoted (CHR 0x27) ''meta'' @ '' file has wrong pattern''])],
           Inl (Exit 1))
        \<and> (stage_metadata e = ([], Inr md) \<longrightarrow>
             run e =
               ([Print Stderr (print_line
                   [''Fatal: bib_url field ('' @ item md ''bib_url'' @ '') in '' @
                    quoted (CHR 0x27) ''meta'' @ '' file has wrong pattern''])],
                Exit 1)))"
proof -
  have 1: "match_bib_url ''https://www.aclweb.org/anthology/W19-0%02d'' = Some (''W'', ''19'', ''0'', ''2'')"
    by (simp add: matcher_eval)
  have 4: "stage_bib_url md =
          ([Print Stderr (print_line
              [''Fatal: bib_url field ('' @ item md ''bib_url'' @ '') in '' @
               quoted (CHR 0x27) ''meta'' @ '' file has wrong pattern''])],
           Inl (Exit 1))" if "match_bib_url (item md ''bib_url'') = None"
    using that by (simp add: stage_bib_url_def)
  show ?thesis
    using 1 match_bib_url_shape [of s l y vol w] match_bib_url_None [of s] 4
      run_bib_url_abort [of e md]
    by blast
qed

text \<open>
  The URL of the claim as stated, with \<^verbatim>\<open>host\<close> for the host, does not match.
\<close>

theorem bib_url_host_counterexample:
  "match_bib_url ''https://host/anthology/W19-0%02d'' = None"
  by (simp add: matcher_eval)

text \<open>The abort on that URL, in a whole run.\<close>

lemmas meta_eval = stage_metadata_def metadata0_def split_ws_max1_def rstrip_def is_space_def
  required_keys_def split_ws_def has_key_def item_def

theorem bib_url_parse_witness:
  "run (example_env\<lparr>meta_lines :=
          [''abbrev ws'', ''title The Workshop'', ''booktitle Proceedings of WS'',
           ''month June'', ''year 2019'', ''location Oz'', ''publisher ACL'',
           ''chairs Ann Lee'', ''bib_url https://host/anthology/W19-0%02d'']\<rparr>) =
     ([Print Stderr (''Fatal: bib_url field (https://host/anthology/W19-0%02d) in '' @
                     [CHR 0x27] @ ''meta'' @ [CHR 0x27] @ '' file has wrong pattern'' @ [CHR 0x0A])],
      Exit 1)"
proof -
  let ?e = "example_env\<lparr>meta_lines :=
          [''abbrev ws'', ''title The Workshop'', ''booktitle Proceedings of WS'',
           ''month June'', ''year 2019'', ''location Oz'', ''publisher ACL'',
           ''chairs Ann Lee'', ''bib_url https://host/anthology/W19-0%02d'']\<rparr>"
  let ?md = "\<lparr>chairs = [''Ann Lee''],
             others = [''abbrev'' \<mapsto> ''ws'', ''title'' \<mapsto> ''The Workshop'',
                       ''booktitle'' \<mapsto> ''Proceedings of WS'', ''month'' \<mapsto> ''June'',
                       ''year'' \<mapsto> ''2019'', ''location'' \<mapsto> ''Oz'', ''publisher'' \<mapsto> ''ACL'',
                       ''bib_url'' \<mapsto> ''https://host/anthology/W19-0%02d'']\<rparr>"
  have m: "stage_metadata ?e = ([], Inr ?md)"
    by (simp add: meta_eval)
  have n: "match_bib_url (item ?md ''bib_url'') = None"
    by (simp add: item_def matcher_eval)
  show ?thesis
    using bib_url_parse [of "[]" "[]" "[]" "[]" "[]" ?md ?e] m n
    by (simp add: item_def print_line_def quoted_def)
qed

subsection \<open>The loop over the final papers\<close>

lemma copies_append: "copies (a @ b) = copies a @ copies b"
  by (induction a rule: copies.induct) auto

lemma writes_append: "writes (a @ b) = writes a @ writes b"
  by (induction a rule: writes.induct) auto


lemma emit_fields:
  "paper_id (emit es st) = paper_id st"
  "final_bibs (emit es st) = final_bibs st"
  "fs (emit es st) = fs st"
  "done_events (emit es st) = done_events st @ es"
  by (simp_all add: emit_def)

lemma format_id_cases:
  "format_id (anthology_paper_width t) n =
     (if ssize_max < int_of_digits (anthology_paper_width t) then Inl ValueError
      else Inr (output_id t n))"
  by (simp add: format_id_def output_id_def)

text \<open>
  A turn for an entry without a PDF: the test of line 147 comes before the format call,
  so the turn ends with the fatal line whatever the width is.
\<close>

lemma emit_paper_no_pdf:
  "pdfs t (fst entry) = None \<Longrightarrow>
   emit_paper e t st entry =
     Inl (done_events st @
            [Print Stderr (print_line [''Fatal: no PDF found for paper'', str_nat (paper_id st)])],
          Exit 1)"
  by (cases entry) (simp add: emit_paper_def)

lemma emit_paper_bad_width:
  "pdfs t (fst entry) = Some pdf \<Longrightarrow> ssize_max < int_of_digits (anthology_paper_width t) \<Longrightarrow>
   emit_paper e t st entry = Inl (done_events st, Uncaught ValueError)"
  by (cases entry) (simp add: emit_paper_def format_id_cases)

lemma emit_paper_good_width:
  assumes "pdfs t (fst entry) = Some pdf"
    and "\<not> ssize_max < int_of_digits (anthology_paper_width t)"
  shows "emit_paper e t st entry =
     (case to_bibtex e (replace_str ''.pdf'' [] (basename (output_path t (paper_id st))))
             (make_entry e t entry) of
        Inl x \<Rightarrow>
          if x = TypeError
          then Inl (done_events (after_copy t st pdf) @
                      [Print Stderr (print_line
                         [''Fatal: Error in BibTeX-encoding paper'', fst entry])],
                    Exit 1)
          else Inl (done_events (after_copy t st pdf), Uncaught x)
      | Inr bib \<Rightarrow>
          Inr (emit [WriteFile (bib_path t (paper_id st)) (print_line [bib]),
                     Print Stdout (print_line [''CREATED'', bib_path t (paper_id st)])]
                 ((after_copy t st pdf)
                    \<lparr>final_bibs := final_bibs (after_copy t st pdf) @ [bib],
                     fs := with_file (bib_path t (paper_id st)) (fs (after_copy t st pdf))\<rparr>)))"
  using assms
  by (cases entry)
     (simp add: emit_paper_def format_id_cases Let_def after_copy_def output_path_def bib_path_def
        split: sum.splits)

lemma after_copy_fields:
  "paper_id (after_copy t st pdf) = Suc (paper_id st)"
  "final_bibs (after_copy t st pdf) = final_bibs st"
  "copies (done_events (after_copy t st pdf)) =
     copies (done_events st) @ [(pdf, output_path t (paper_id st))]"
  "writes (done_events (after_copy t st pdf)) = writes (done_events st)"
  "\<exists>more. done_events (after_copy t st pdf) =
     done_events st @ Copy pdf (output_path t (paper_id st)) # more"
  by (simp_all add: after_copy_def ensure_dir_def emit_def copies_append writes_append)


lemma emit_paper_Inr:
  assumes "emit_paper e t st entry = Inr st'"
  shows "\<exists>pdf bib. pdfs t (fst entry) = Some pdf
      \<and> int_of_digits (anthology_paper_width t) \<le> ssize_max
      \<and> to_bibtex e (replace_str ''.pdf'' [] (basename (output_path t (paper_id st))))
           (make_entry e t entry) = Inr bib
      \<and> paper_id st' = Suc (paper_id st)
      \<and> final_bibs st' = final_bibs st @ [bib]
      \<and> copies (done_events st') = copies (done_events st) @ [(pdf, output_path t (paper_id st))]
      \<and> writes (done_events st') =
          writes (done_events st) @ [(bib_path t (paper_id st), print_line [bib])]
      \<and> (\<exists>more. done_events st' =
            done_events st @ Copy pdf (output_path t (paper_id st)) # more)"
proof (cases "pdfs t (fst entry)")
  case None
  with assms show ?thesis by (simp add: emit_paper_no_pdf)
next
  case (Some pdf)
  show ?thesis
  proof (cases "ssize_max < int_of_digits (anthology_paper_width t)")
    case True
    with assms Some show ?thesis by (simp add: emit_paper_bad_width)
  next
    case False
    from after_copy_fields(5) [of t st pdf] obtain more where
      m: "done_events (after_copy t st pdf) =
            done_events st @ Copy pdf (output_path t (paper_id st)) # more" by blast
    from assms obtain bib where
      b: "to_bibtex e (replace_str ''.pdf'' [] (basename (output_path t (paper_id st))))
            (make_entry e t entry) = Inr bib"
      and st': "st' = emit [WriteFile (bib_path t (paper_id st)) (print_line [bib]),
                     Print Stdout (print_line [''CREATED'', bib_path t (paper_id st)])]
                 ((after_copy t st pdf)
                    \<lparr>final_bibs := final_bibs (after_copy t st pdf) @ [bib],
                     fs := with_file (bib_path t (paper_id st)) (fs (after_copy t st pdf))\<rparr>)"
      unfolding emit_paper_good_width [OF Some False]
      by (auto split: sum.splits if_splits)
    have 1: "paper_id st' = Suc (paper_id st)" "final_bibs st' = final_bibs st @ [bib]"
      "copies (done_events st') = copies (done_events st) @ [(pdf, output_path t (paper_id st))]"
      "writes (done_events st') =
          writes (done_events st) @ [(bib_path t (paper_id st), print_line [bib])]"
      by (simp_all add: st' after_copy_fields emit_fields copies_append writes_append)
    have 2: "\<exists>more. done_events st' =
            done_events st @ Copy pdf (output_path t (paper_id st)) # more"
      by (simp add: st' emit_fields m)
    from Some False b 1 2 show ?thesis by simp
  qed
qed

lemma emit_paper_Inl:
  assumes "emit_paper e t st entry = Inl (es, out)"
  shows "writes es = writes (done_events st)
      \<and> (copies es = copies (done_events st)
         \<or> (\<exists>pdf. copies es = copies (done_events st) @ [(pdf, output_path t (paper_id st))]))
      \<and> (out = Exit 1 \<and> (\<exists>m. last es = Print Stderr m \<and> prefix ''Fatal: '' m)
         \<or> out = Uncaught ValueError \<and> ssize_max < int_of_digits (anthology_paper_width t)
         \<or> (\<exists>k x. to_bibtex e k (make_entry e t entry) = Inl x \<and> x \<noteq> TypeError
                  \<and> out = Uncaught x))"
proof (cases "pdfs t (fst entry)")
  case None
  with assms show ?thesis
    by (auto simp: emit_paper_no_pdf copies_append writes_append print_line_def)
next
  case (Some pdf)
  show ?thesis
  proof (cases "ssize_max < int_of_digits (anthology_paper_width t)")
    case True
    with assms Some show ?thesis by (simp add: emit_paper_bad_width)
  next
    case False
    show ?thesis
    proof (cases "to_bibtex e (replace_str ''.pdf'' [] (basename (output_path t (paper_id st))))
                    (make_entry e t entry)")
      case (Inr bib)
      with assms show ?thesis by (simp add: emit_paper_good_width [OF Some False])
    next
      case (Inl x)
      show ?thesis
      proof (cases "x = TypeError")
        case True
        with assms Inl have
          "es = done_events (after_copy t st pdf) @
                  [Print Stderr (print_line [''Fatal: Error in BibTeX-encoding paper'', fst entry])]"
          "out = Exit 1"
          by (simp_all add: emit_paper_good_width [OF Some False])
        then show ?thesis
          by (simp add: after_copy_fields copies_append writes_append print_line_def)
      next
        case False
        with assms Inl have "es = done_events (after_copy t st pdf)" "out = Uncaught x"
          by (simp_all add: emit_paper_good_width [OF Some \<open>\<not> ssize_max < _\<close>])
        then show ?thesis using Inl False
          by (auto simp: after_copy_fields)
      qed
    qed
  qed
qed


lemma upt_shift: "[n..<Suc (n + k)] = n # [Suc n..<Suc (n + k)]"
  by (simp add: upt_conv_Cons del: upt_Suc)





lemma emit_papers_missing_pdf:
  "i < length papers \<Longrightarrow> pdfs t (fst (papers ! i)) = None \<Longrightarrow>
   \<exists>es out k j. emit_papers e t st papers = Inl (es, out)
     \<and> k \<le> i \<and> j \<le> i
     \<and> map snd (copies es) =
         map snd (copies (done_events st)) @ map (output_path t) [paper_id st..<paper_id st + k]
     \<and> map fst (writes es) =
         map fst (writes (done_events st)) @ map (bib_path t) [paper_id st..<paper_id st + j]"
proof (induction papers arbitrary: st i)
  case Nil
  then show ?case by simp
next
  case (Cons p ps)
  show ?case
  proof (cases "emit_paper e t st p")
    case (Inl stop)
    obtain es out where stop: "stop = (es, out)" by (cases stop)
    from emit_paper_Inl [of e t st p es out] Inl stop
    have w: "writes es = writes (done_events st)" by auto
    have "\<exists>k\<le>i. map snd (copies es) =
            map snd (copies (done_events st)) @ map (output_path t) [paper_id st..<paper_id st + k]"
    proof (cases i)
      case 0
      then have "pdfs t (fst p) = None" using Cons.prems by simp
      then have "copies es = copies (done_events st)"
        using emit_paper_no_pdf [of t p e st] Inl stop by (simp add: copies_append)
      then show ?thesis by (intro exI [of _ 0]) simp
    next
      case (Suc i')
      from emit_paper_Inl [of e t st p es out] Inl stop
      consider "copies es = copies (done_events st)"
        | pdf where "copies es = copies (done_events st) @ [(pdf, output_path t (paper_id st))]"
        by auto
      then show ?thesis
      proof cases
        case 1
        then show ?thesis by (intro exI [of _ 0]) simp
      next
        case 2
        then show ?thesis using Suc by (intro exI [of _ 1]) simp
      qed
    qed
    then obtain k where k: "k \<le> i" "map snd (copies es) =
            map snd (copies (done_events st)) @ map (output_path t) [paper_id st..<paper_id st + k]"
      by blast
    have w0: "map fst (writes es) =
         map fst (writes (done_events st)) @ map (bib_path t) [paper_id st..<paper_id st + 0]"
      using w by simp
    have r: "emit_papers e t st (p # ps) = Inl (es, out)" using Inl stop by simp
    show ?thesis
      by (intro exI [of _ es] exI [of _ out] exI [of _ k] exI [of _ 0] conjI r k w0) simp
  next
    case (Inr st1)
    from emit_paper_Inr [OF Inr] obtain pdf bib where
      p: "pdfs t (fst p) = Some pdf" "paper_id st1 = Suc (paper_id st)"
         "copies (done_events st1) = copies (done_events st) @ [(pdf, output_path t (paper_id st))]"
         "writes (done_events st1) =
            writes (done_events st) @ [(bib_path t (paper_id st), print_line [bib])]"
      by blast
    from p(1) Cons.prems obtain i' where i': "i = Suc i'" by (cases i) auto
    with Cons.prems have "i' < length ps" "pdfs t (fst (ps ! i')) = None" by simp_all
    from Cons.IH [OF this, of st1] obtain es out k j where
      r: "emit_papers e t st1 ps = Inl (es, out)" "k \<le> i'" "j \<le> i'"
         "map snd (copies es) =
            map snd (copies (done_events st1)) @ map (output_path t) [paper_id st1..<paper_id st1 + k]"
         "map fst (writes es) =
            map fst (writes (done_events st1)) @ map (bib_path t) [paper_id st1..<paper_id st1 + j]"
      by blast
    have c: "map snd (copies es) =
            map snd (copies (done_events st)) @ map (output_path t) [paper_id st..<paper_id st + Suc k]"
      using r(4) p by (simp add: upt_shift del: upt_Suc)
    have w: "map fst (writes es) =
            map fst (writes (done_events st)) @ map (bib_path t) [paper_id st..<paper_id st + Suc j]"
      using r(5) p by (simp add: upt_shift del: upt_Suc)
    have e: "emit_papers e t st (p # ps) = Inl (es, out)" using Inr r(1) by simp
    have "Suc k \<le> i" "Suc j \<le> i" using r(2,3) i' by simp_all
    then show ?thesis
      by (intro exI [of _ es] exI [of _ out] exI [of _ "Suc k"] exI [of _ "Suc j"] conjI e c w)
  qed
qed

subsection \<open>Decimal identifiers\<close>

lemma digit_char_table:
  "list_all (\<lambda>d. digit_val (digit_char d) = int d \<and> is_digit (digit_char d)) [0..<10]"
  by code_simp

lemma digit_char_props:
  assumes "d < 10"
  shows "digit_val (digit_char d) = int d" and "is_digit (digit_char d)"
  using digit_char_table assms by (simp_all add: list_all_iff)

lemma int_of_digits_snoc: "int_of_digits (ds @ [c]) = 10 * int_of_digits ds + digit_val c"
  by (simp add: int_of_digits_def)

lemma int_of_digits_str_nat: "int_of_digits (str_nat n) = int n"
proof (induction n rule: str_nat.induct)
  case (1 n)
  show ?case
  proof (cases "n < 10")
    case True
    then show ?thesis
      using digit_char_props(1) [of n] by (simp add: str_nat.simps [of n] int_of_digits_def)
  next
    case False
    then have "int_of_digits (str_nat (n div 10)) = int (n div 10)" using 1 by simp
    moreover have "digit_val (digit_char (n mod 10)) = int (n mod 10)"
      by (rule digit_char_props) simp
    moreover have "10 * int (n div 10) + int (n mod 10) = int n"
      by (simp add: zdiv_int zmod_int)
    ultimately show ?thesis
      using False by (simp add: str_nat.simps [of n] int_of_digits_snoc)
  qed
qed

lemma str_nat_digits: "list_all is_digit (str_nat n)"
proof (induction n rule: str_nat.induct)
  case (1 n)
  show ?case
  proof (cases "n < 10")
    case True
    then show ?thesis using digit_char_props(2) [of n] by (simp add: str_nat.simps [of n])
  next
    case False
    moreover have "is_digit (digit_char (n mod 10))" by (rule digit_char_props) simp
    ultimately show ?thesis using 1 by (simp add: str_nat.simps [of n])
  qed
qed

lemma int_of_digits_zeros: "int_of_digits (replicate k (CHR ''0'') @ ds) = int_of_digits ds"
proof -
  have "foldl (\<lambda>acc c. 10 * acc + digit_val c) 0 (replicate k (CHR ''0'')) = 0"
    by (induction k) (simp_all add: digit_val_def)
  then show ?thesis by (simp add: int_of_digits_def)
qed


lemma zero_pad_value: "int_of_digits (zero_pad k (str_nat n)) = int n"
  by (simp only: zero_pad_def int_of_digits_zeros int_of_digits_str_nat)

lemma zero_pad_digits: "list_all is_digit (zero_pad k (str_nat n))"
proof -
  have "is_digit (CHR ''0'')" by (simp add: is_digit_def)
  then have "list_all is_digit (replicate j (CHR ''0''))" for j by (induction j) simp_all
  then show ?thesis using str_nat_digits [of n] by (simp only: zero_pad_def list_all_append)
qed

lemma output_id_value: "int_of_digits (output_id t n) = int n"
  unfolding output_id_def by (rule zero_pad_value)

lemma output_id_inj:
  assumes "output_id t m = output_id t n"
  shows "m = n"
proof -
  have "int m = int_of_digits (output_id t m)" by (simp only: output_id_value)
  also have "\<dots> = int_of_digits (output_id t n)" by (simp only: assms)
  also have "\<dots> = int n" by (rule output_id_value)
  finally show ?thesis by (simp only: of_nat_eq_iff)
qed

lemma output_path_inj: "output_path t m = output_path t n \<Longrightarrow> m = n"
  by (auto simp: output_path_def dest_path_def dest: output_id_inj)

subsection \<open>A run that reaches the loop\<close>




lemma run_stage_write:
  "load_all e = (es0, Inr (t, papers)) \<Longrightarrow> stage_write e t papers = (es1, out) \<Longrightarrow>
   run e = (es0 @ es1, out)"
  by (simp add: run_def)



lemma run_Finished:
  assumes "run e = (es, Finished)"
  shows "\<exists>es0 t papers es1. load_all e = (es0, Inr (t, papers))
           \<and> stage_write e t papers = (es1, Finished) \<and> es = es0 @ es1"
proof (cases "load_all e")
  case (Pair es0 r)
  show ?thesis
  proof (cases r)
    case (Inl out)
    with Pair assms have "load_all e = (es, Inl Finished)" by (simp add: run_def)
    then have False
      by (auto simp: load_all_def and_then_def stage_metadata_def stage_bib_url_def
            stage_accepted_def stage_submissions_def stage_abstracts_def stage_pdfs_def
          split: sum.splits option.splits if_splits prod.splits)
    then show ?thesis ..
  next
    case (Inr x)
    obtain t papers where x: "x = (t, papers)" by (cases x)
    obtain es1 out where w: "stage_write e t papers = (es1, out)" by (cases "stage_write e t papers")
    with Pair Inr x assms have "out = Finished" "es = es0 @ es1" by (simp_all add: run_def)
    with Pair Inr x w show ?thesis by simp
  qed
qed



subsection \<open>Output identifiers\<close>



end
